theory Spec2Isabelle
  imports Main "HOL-Library.AList"
begin

section \<open>Data model\<close>

text \<open>
  Attribute values are the values that \<^verbatim>\<open>json.dump\<close> writes and \<^verbatim>\<open>json.load\<close> reads
  back unchanged. A Python dict is an association list in insertion order with distinct
  keys: \<^const>\<open>AList.update\<close> replaces the value of a present key in place and appends a
  new key at the end, as assignment to a dict entry does.
\<close>

datatype jval =
  JNull | JBool bool | JNum int | JStr string | JArr "jval list" | JObj "(string \<times> jval) list"

type_synonym timestamp = nat

text \<open>Class \<^verbatim>\<open>FashionConcept\<close>.\<close>

record fashion_concept =
  name :: string
  category :: string
  attributes :: "(string \<times> jval) list"
  parent :: "string option"
  children :: "string set"
  created_at :: timestamp
  modified_at :: timestamp

text \<open>The dict built by \<^verbatim>\<open>FashionConcept.to_dict\<close>; the timestamps stand for their ISO strings.\<close>

record concept_dict =
  d_name :: string
  d_category :: string
  d_attributes :: "(string \<times> jval) list"
  d_parent :: "string option"
  d_children :: "string set"
  d_created_at :: timestamp
  d_modified_at :: timestamp

text \<open>
  The \<^verbatim>\<open>networkx.DiGraph\<close> is a dict from each node to its attribute dict and its
  successors, both dicts in insertion order, the order in which \<^verbatim>\<open>nodes()\<close> and
  \<^verbatim>\<open>edges()\<close> iterate. A node that \<^verbatim>\<open>add_edge\<close> created has no attributes, written
  \<open>None\<close>. The predecessor dict is not modelled: no operation of the ontology reads it.
\<close>

type_synonym digraph = "(string \<times> concept_dict option \<times> string list) list"

text \<open>
  Class \<^verbatim>\<open>FashionOntology\<close>. \<open>now_calls\<close> counts the calls of \<^verbatim>\<open>datetime.now()\<close> made so
  far; the \<open>k\<close>-th call returns \<open>clk k\<close>, for a clock \<open>clk\<close> that every operation takes as
  its first argument.
\<close>

record fashion_ontology =
  concepts :: "(string \<times> fashion_concept) list"
  graph :: digraph
  now_calls :: nat

section \<open>FashionConcept\<close>

definition truthy :: "string option \<Rightarrow> bool" where
  "truthy p = (case p of None \<Rightarrow> False | Some s \<Rightarrow> s \<noteq> [])"

definition FashionConcept_init ::
  "(nat \<Rightarrow> timestamp) \<Rightarrow> nat \<Rightarrow> string \<Rightarrow> string \<Rightarrow> (string \<times> jval) list option \<Rightarrow> string option
     \<Rightarrow> fashion_concept \<times> nat" where
  "FashionConcept_init clk n nm cat attrs par =
     (\<lparr>name = nm, category = cat,
       attributes = (case attrs of None \<Rightarrow> [] | Some a \<Rightarrow> if a = [] then [] else a),
       parent = par, children = {},
       created_at = clk n, modified_at = clk (Suc n)\<rparr>, Suc (Suc n))"

definition to_dict :: "fashion_concept \<Rightarrow> concept_dict" where
  "to_dict c =
     \<lparr>d_name = name c, d_category = category c, d_attributes = attributes c,
      d_parent = parent c, d_children = children c,
      d_created_at = created_at c, d_modified_at = modified_at c\<rparr>"

section \<open>The graph operations used\<close>

definition has_key :: "('k \<times> 'v) list \<Rightarrow> 'k \<Rightarrow> bool" where
  "has_key kvs k = (k \<in> fst ` set kvs)"

definition empty_graph :: digraph where
  "empty_graph = []"

definition add_node :: "string \<Rightarrow> concept_dict \<Rightarrow> digraph \<Rightarrow> digraph" where
  "add_node n d g =
     (if has_key g n then AList.map_entry n (\<lambda>(a, vs). (Some d, vs)) g
      else g @ [(n, Some d, [])])"

definition ensure_node :: "string \<Rightarrow> digraph \<Rightarrow> digraph" where
  "ensure_node n g = (if has_key g n then g else g @ [(n, None, [])])"

definition successors :: "digraph \<Rightarrow> string \<Rightarrow> string list" where
  "successors g u = (case map_of g u of None \<Rightarrow> [] | Some (a, vs) \<Rightarrow> vs)"

definition add_edge :: "string \<Rightarrow> string \<Rightarrow> digraph \<Rightarrow> digraph" where
  "add_edge u v g =
     AList.map_entry u (\<lambda>(a, vs). (a, if v \<in> set vs then vs else vs @ [v]))
       (ensure_node v (ensure_node u g))"

definition nodes :: "digraph \<Rightarrow> string list" where
  "nodes g = map fst g"

definition edges :: "digraph \<Rightarrow> (string \<times> string) list" where
  "edges g = concat (map (\<lambda>(u, a, vs). map (Pair u) vs) g)"

section \<open>FashionOntology\<close>

definition add_concept ::
  "(nat \<Rightarrow> timestamp) \<Rightarrow> fashion_ontology \<Rightarrow> string \<Rightarrow> string \<Rightarrow> (string \<times> jval) list option
     \<Rightarrow> string option \<Rightarrow> fashion_ontology" where
  "add_concept clk s nm cat attrs par =
     (let (concept, n') = FashionConcept_init clk (now_calls s) nm cat attrs par;
          cs = AList.update nm concept (concepts s);
          g = add_node nm (to_dict concept) (graph s)
      in if truthy par then
           (let p = the par;
                g' = add_edge p nm g;
                cs' = (if has_key cs p
                       then AList.map_entry p (\<lambda>pc. pc\<lparr>children := insert nm (children pc)\<rparr>) cs
                       else cs)
            in \<lparr>concepts = cs', graph = g', now_calls = n'\<rparr>)
         else \<lparr>concepts = cs, graph = g, now_calls = n'\<rparr>)"

definition add_attribute_categories ::
  "(nat \<Rightarrow> timestamp) \<Rightarrow> fashion_ontology \<Rightarrow> fashion_ontology" where
  "add_attribute_categories clk s =
     fold (\<lambda>(cat, attrs) s.
             fold (\<lambda>attr s. add_concept clk s attr ''attribute'' None (Some cat)) attrs
               (add_concept clk s cat ''attribute_category'' None (Some ''Fashion'')))
       [(''Material'', [''Cotton'', ''Silk'', ''Wool'', ''Polyester'', ''Leather'', ''Denim'']),
        (''Pattern'', [''Solid'', ''Striped'', ''Floral'', ''Checked'', ''Geometric'']),
        (''Style'', [''Casual'', ''Formal'', ''Athletic'', ''Bohemian'', ''Classic'']),
        (''Fit'', [''Regular'', ''Slim'', ''Loose'', ''Tailored'', ''Oversized'']),
        (''Length'', [''Mini'', ''Midi'', ''Maxi'', ''Cropped'', ''Full-length'']),
        (''Occasion'', [''Casual'', ''Formal'', ''Party'', ''Workwear'', ''Sports'']),
        (''Feature'', [''Pockets'', ''Buttons'', ''Zippers'', ''Collar'', ''Hood'']),
        (''Construction'', [''Woven'', ''Knitted'', ''Quilted'', ''Seamless''])]
       s"

definition initialize_base_structure ::
  "(nat \<Rightarrow> timestamp) \<Rightarrow> fashion_ontology \<Rightarrow> fashion_ontology" where
  "initialize_base_structure clk s =
     (let s1 = add_concept clk s ''Fashion'' ''root'' None None;
          s2 = fold (\<lambda>cat s. add_concept clk s cat ''main_category'' None (Some ''Fashion''))
                 [''Apparel'', ''Footwear'', ''Accessories'', ''Beauty''] s1;
          s3 = fold (\<lambda>cat s. add_concept clk s cat ''sub_category'' None (Some ''Apparel''))
                 [''Dresses'', ''Tops'', ''Bottoms'', ''Outerwear'', ''Suits'',
                  ''Activewear'', ''Intimates'', ''Swimwear''] s2
      in add_attribute_categories clk s3)"

text \<open>The store of lines 38 and 39, before the seed is added; its clock has not been read.\<close>

definition new_store :: fashion_ontology where
  "new_store = \<lparr>concepts = [], graph = empty_graph, now_calls = 0\<rparr>"

definition FashionOntology_init :: "(nat \<Rightarrow> timestamp) \<Rightarrow> fashion_ontology" where
  "FashionOntology_init clk = initialize_base_structure clk new_store"

definition get_children :: "fashion_ontology \<Rightarrow> string \<Rightarrow> string set" where
  "get_children s nm = (case map_of (concepts s) nm of Some c \<Rightarrow> children c | None \<Rightarrow> {})"

text \<open>
  The \<^verbatim>\<open>while\<close> loop of \<^verbatim>\<open>get_ancestry\<close> follows parent links and does not return on
  a cycle of parents, so it is a partial function: \<open>None\<close> is "does not return".
\<close>

partial_function (option) ancestry_walk ::
  "(string \<times> fashion_concept) list \<Rightarrow> string \<Rightarrow> string list \<Rightarrow> string list option" where
  "ancestry_walk cs current path =
     (case map_of cs current of
        None \<Rightarrow> Some path
      | Some c \<Rightarrow>
          if truthy (parent c) then ancestry_walk cs (the (parent c)) (path @ [current])
          else Some path)"

definition get_ancestry :: "fashion_ontology \<Rightarrow> string \<Rightarrow> string list option" where
  "get_ancestry s nm =
     map_option (\<lambda>path. rev (path @ [''Fashion''])) (ancestry_walk (concepts s) nm [])"

text \<open>
  \<^verbatim>\<open>nx.shortest_path_length(G, source, target)\<close> is library code: it returns the number
  of edges of a shortest directed path and raises \<^verbatim>\<open>NetworkXNoPath\<close> (here \<open>None\<close>) when
  there is none. The model searches level by level: level \<open>k\<close> holds the nodes that a walk of
  \<open>k\<close> edges from the source ends in, and a shortest path has fewer edges than the graph
  has nodes.
\<close>

definition next_level :: "digraph \<Rightarrow> string list \<Rightarrow> string list" where
  "next_level g level = remdups (concat (map (successors g) level))"

fun level_search :: "digraph \<Rightarrow> string \<Rightarrow> string list \<Rightarrow> nat \<Rightarrow> nat \<Rightarrow> nat option" where
  "level_search g tgt level k 0 = None"
| "level_search g tgt level k (Suc fuel) =
     (if tgt \<in> set level then Some k
      else level_search g tgt (next_level g level) (Suc k) fuel)"

definition shortest_path_length :: "digraph \<Rightarrow> string \<Rightarrow> string \<Rightarrow> nat option" where
  "shortest_path_length g src tgt = level_search g tgt [src] 0 (length (nodes g))"

definition related_pairs :: "digraph \<Rightarrow> string \<Rightarrow> int \<Rightarrow> (string \<times> nat) list" where
  "related_pairs g nm max_distance =
     concat (map (\<lambda>node.
        if node \<noteq> nm then
          (case shortest_path_length g nm node of
             None \<Rightarrow> []
           | Some distance \<Rightarrow> if int distance \<le> max_distance then [(node, distance)] else [])
        else []) (nodes g))"

definition find_related_concepts :: "fashion_ontology \<Rightarrow> string \<Rightarrow> int \<Rightarrow> string list" where
  "find_related_concepts s nm max_distance =
     (if nm \<notin> set (nodes (graph s)) then []
      else map fst (sort_key snd (related_pairs (graph s) nm max_distance)))"

text \<open>
  The exported document. \<^verbatim>\<open>json.dump\<close> followed by \<^verbatim>\<open>json.load\<close> gives an equal document
  back (strings, null, objects with string keys, arrays), so the file is modelled by the
  document itself.
\<close>

record document =
  doc_concepts :: "(string \<times> concept_dict) list"
  doc_relationships :: "(string \<times> string) list"

definition export_to_json :: "fashion_ontology \<Rightarrow> document" where
  "export_to_json s =
     \<lparr>doc_concepts = map (\<lambda>(nm, concept). (nm, to_dict concept)) (concepts s),
      doc_relationships = edges (graph s)\<rparr>"

definition import_from_json ::
  "(nat \<Rightarrow> timestamp) \<Rightarrow> fashion_ontology \<Rightarrow> document \<Rightarrow> fashion_ontology" where
  "import_from_json clk s doc =
     fold (\<lambda>(nm, concept_data) s.
             add_concept clk s nm (d_category concept_data) (Some (d_attributes concept_data))
               (d_parent concept_data))
       (doc_concepts doc)
       (s\<lparr>concepts := [], graph := empty_graph\<rparr>)"

section \<open>OntologyManager\<close>

text \<open>
  A pending entry is the string \<^verbatim>\<open>json.dumps(concept_data)\<close>. \<^verbatim>\<open>json.loads\<close> inverts
  \<^verbatim>\<open>json.dumps\<close> on these dicts, so two entries are the same string exactly when they are
  the same proposal, and the set of strings is modelled as the set of proposals.
\<close>

record proposal =
  p_name :: string
  p_category :: string
  p_attributes :: "(string \<times> jval) list option"
  p_parent :: "string option"

record ontology_manager =
  ontology :: fashion_ontology
  pending_concepts :: "proposal set"

definition OntologyManager_init :: "(nat \<Rightarrow> timestamp) \<Rightarrow> ontology_manager" where
  "OntologyManager_init clk = \<lparr>ontology = FashionOntology_init clk, pending_concepts = {}\<rparr>"

text \<open>
  The attributes that a caller hands to \<^verbatim>\<open>suggest_new_concept\<close> are any Python dict.
  \<^verbatim>\<open>json.dumps\<close> serialises a dict of string keys and JSON values, and raises
  \<^verbatim>\<open>TypeError\<close> on any other key (a tuple) or value (a set, a date, bytes).
\<close>

datatype error = TypeError

datatype pykey = StrKey string | OtherKey

datatype pyval = JsonValue jval | OtherValue

fun dumps_item :: "pykey \<times> pyval \<Rightarrow> (string \<times> jval) option" where
  "dumps_item (StrKey k, JsonValue v) = Some (k, v)"
| "dumps_item (StrKey k, OtherValue) = None"
| "dumps_item (OtherKey, v) = None"

definition dumps_attributes ::
  "(pykey \<times> pyval) list option \<Rightarrow> error + (string \<times> jval) list option" where
  "dumps_attributes attrs =
     (case attrs of
        None \<Rightarrow> Inr None
      | Some kvs \<Rightarrow>
          (case those (map dumps_item kvs) of
             None \<Rightarrow> Inl TypeError
           | Some js \<Rightarrow> Inr (Some js)))"

definition suggest_new_concept ::
  "ontology_manager \<Rightarrow> string \<Rightarrow> string \<Rightarrow> (pykey \<times> pyval) list option \<Rightarrow> string option
     \<Rightarrow> error + bool \<times> ontology_manager" where
  "suggest_new_concept m nm cat attrs par =
     (if has_key (concepts (ontology m)) nm then Inr (False, m)
      else
        (case dumps_attributes attrs of
           Inl e \<Rightarrow> Inl e
         | Inr a \<Rightarrow>
             Inr (True, m\<lparr>pending_concepts :=
                            insert \<lparr>p_name = nm, p_category = cat, p_attributes = a, p_parent = par\<rparr>
                              (pending_concepts m)\<rparr>)))"

text \<open>
  Python does not specify the order in which a \<^verbatim>\<open>for\<close> loop visits a set. The operations
  that iterate over the pending set take that order as the argument \<open>iter\<close>, which lists
  the elements of the set it is given.
\<close>

definition review_pending_concepts ::
  "(proposal set \<Rightarrow> proposal list) \<Rightarrow> ontology_manager \<Rightarrow> proposal list" where
  "review_pending_concepts iter m = iter (pending_concepts m)"

definition approve_concept ::
  "(nat \<Rightarrow> timestamp) \<Rightarrow> (proposal set \<Rightarrow> proposal list) \<Rightarrow> ontology_manager \<Rightarrow> string
     \<Rightarrow> bool \<times> ontology_manager" where
  "approve_concept clk iter m nm =
     (case find (\<lambda>concept. p_name concept = nm) (iter (pending_concepts m)) of
        None \<Rightarrow> (False, m)
      | Some concept \<Rightarrow>
          (True,
           \<lparr>ontology = add_concept clk (ontology m) (p_name concept) (p_category concept)
                          (p_attributes concept) (p_parent concept),
            pending_concepts = pending_concepts m - {concept}\<rparr>))"

section \<open>Properties stated by the specification\<close>

text \<open>
  The consistency of the cached children sets with the parent fields: every member of a
  concept's children set is a concept whose parent is that concept, and every concept
  with a parent is a member of the children set of that parent, which exists.
\<close>

definition children_consistent :: "(string \<times> fashion_concept) list \<Rightarrow> bool" where
  "children_consistent cs =
     ((\<forall>(pn, p) \<in> set cs. \<forall>cn \<in> children p.
         (case map_of cs cn of None \<Rightarrow> False | Some c \<Rightarrow> parent c = Some pn)) \<and>
      (\<forall>(cn, c) \<in> set cs.
         (case parent c of
            None \<Rightarrow> True
          | Some pn \<Rightarrow> (case map_of cs pn of None \<Rightarrow> False | Some p \<Rightarrow> cn \<in> children p))))"

text \<open>
  The half of the consistency that the specification singles out: every concept with a
  parent is a member of the children set of that parent, which exists.
\<close>

definition back_referenced :: "(string \<times> fashion_concept) list \<Rightarrow> bool" where
  "back_referenced cs =
     (\<forall>(cn, c) \<in> set cs.
        (case parent c of
           None \<Rightarrow> True
         | Some pn \<Rightarrow> (case map_of cs pn of None \<Rightarrow> False | Some p \<Rightarrow> cn \<in> children p)))"

text \<open>Every parent named in the store is one of the names \<open>A\<close>.\<close>

definition parents_within :: "string set \<Rightarrow> (string \<times> fashion_concept) list \<Rightarrow> bool" where
  "parents_within A cs =
     (\<forall>(cn, c) \<in> set cs. (case parent c of None \<Rightarrow> True | Some pn \<Rightarrow> pn \<in> A))"


text \<open>The fields of a document entry that \<^verbatim>\<open>import_from_json\<close> reads.\<close>

definition read_fields ::
  "document \<Rightarrow> (string \<times> string \<times> (string \<times> jval) list \<times> string option) list" where
  "read_fields doc =
     map (\<lambda>(nm, d). (nm, d_category d, d_attributes d, d_parent d)) (doc_concepts doc)"

text \<open>A clock that advances by one unit between any two readings.\<close>

definition tick_clock :: "nat \<Rightarrow> timestamp" where
  "tick_clock k = k"

text \<open>
  The scenario of the specification's testable property 8: a store with the root
  \<^verbatim>\<open>Fashion\<close>, then \<^verbatim>\<open>Apparel\<close> under \<^verbatim>\<open>Fashion\<close>, then \<^verbatim>\<open>Dresses\<close> under \<^verbatim>\<open>Apparel\<close>.
\<close>

definition scenario_store :: "(nat \<Rightarrow> timestamp) \<Rightarrow> fashion_ontology" where
  "scenario_store clk =
     add_concept clk
       (add_concept clk (add_concept clk new_store ''Fashion'' ''root'' None None)
          ''Apparel'' ''main_category'' None (Some ''Fashion''))
       ''Dresses'' ''sub_category'' None (Some ''Apparel'')"

text \<open>
  Two proposals of the same name with different content, both pending on a seeded
  manager, and an order in which the loop of \<^verbatim>\<open>approve_concept\<close> may visit them.
\<close>

definition velvet_a :: proposal where
  "velvet_a = \<lparr>p_name = ''Velvet'', p_category = ''attribute'', p_attributes = None,
                p_parent = Some ''Material''\<rparr>"

definition velvet_b :: proposal where
  "velvet_b = \<lparr>p_name = ''Velvet'', p_category = ''fabric'', p_attributes = None,
                p_parent = Some ''Material''\<rparr>"

definition two_velvets :: "(nat \<Rightarrow> timestamp) \<Rightarrow> ontology_manager" where
  "two_velvets clk =
     snd (projr (suggest_new_concept
            (snd (projr (suggest_new_concept (OntologyManager_init clk) ''Velvet'' ''attribute''
                           None (Some ''Material''))))
            ''Velvet'' ''fabric'' None (Some ''Material'')))"

definition velvets_order :: "proposal set \<Rightarrow> proposal list" where
  "velvets_order S = [velvet_b, velvet_a]"

text \<open>
  A manager in which the name of a pending proposal has been committed meanwhile by a
  direct call of \<^verbatim>\<open>add_concept\<close>.
\<close>

definition velvet_committed :: "(nat \<Rightarrow> timestamp) \<Rightarrow> ontology_manager" where
  "velvet_committed clk =
     (two_velvets clk)\<lparr>ontology :=
        add_concept clk (ontology (two_velvets clk)) ''Velvet'' ''attribute''
          (Some [(''pile'', JStr ''cut'')]) (Some ''Material'')\<rparr>"

text \<open>One iteration of the loop of \<^verbatim>\<open>import_from_json\<close>, on the fields it reads.\<close>

definition replay ::
  "(nat \<Rightarrow> timestamp) \<Rightarrow> string \<times> string \<times> (string \<times> jval) list \<times> string option
     \<Rightarrow> fashion_ontology \<Rightarrow> fashion_ontology" where
  "replay clk e s = (case e of (nm, cat, attrs, par) \<Rightarrow> add_concept clk s nm cat (Some attrs) par)"

section \<open>What one call of add_concept does\<close>

lemma has_key_map_of: "has_key kvs k \<longleftrightarrow> map_of kvs k \<noteq> None"
  by (simp add: has_key_def map_of_eq_None_iff)

lemma keys_map_entry: "map fst (AList.map_entry k f al) = map fst al"
  by (induction al) auto

lemma now_calls_add_concept:
  "now_calls (add_concept clk s nm cat attrs par) = Suc (Suc (now_calls s))"
  by (simp add: add_concept_def FashionConcept_init_def Let_def)

lemma map_of_add_concept:
  "map_of (concepts (add_concept clk s nm cat attrs par)) k =
     (if truthy par \<and> k = the par then
        (if k = nm
         then Some ((fst (FashionConcept_init clk (now_calls s) nm cat attrs par))\<lparr>children := {nm}\<rparr>)
         else map_option (\<lambda>pc. pc\<lparr>children := insert nm (children pc)\<rparr>) (map_of (concepts s) k))
      else if k = nm then Some (fst (FashionConcept_init clk (now_calls s) nm cat attrs par))
      else map_of (concepts s) k)"
  by (auto simp: add_concept_def Let_def has_key_map_of update_conv' map_of_map_entry
        FashionConcept_init_def split: option.splits)

lemma has_key_add_concept:
  "has_key (concepts (add_concept clk s nm cat attrs par)) k \<longleftrightarrow> k = nm \<or> has_key (concepts s) k"
  by (auto simp: has_key_map_of map_of_add_concept)

lemma parent_add_concept:
  "map_option parent (map_of (concepts (add_concept clk s nm cat attrs par)) k) =
     (if k = nm then Some par else map_option parent (map_of (concepts s) k))"
  by (auto simp: map_of_add_concept FashionConcept_init_def option.map_comp comp_def)

lemma children_add_concept:
  "map_option children (map_of (concepts (add_concept clk s nm cat attrs par)) k) =
     (if k = nm then Some (if truthy par \<and> the par = nm then {nm} else {})
      else if truthy par \<and> k = the par
        then map_option (insert nm) (map_option children (map_of (concepts s) k))
      else map_option children (map_of (concepts s) k))"
  by (auto simp: map_of_add_concept FashionConcept_init_def option.map_comp comp_def)

lemma created_at_add_concept:
  "map_option created_at (map_of (concepts (add_concept clk s nm cat attrs par)) k) =
     (if k = nm then Some (clk (now_calls s)) else map_option created_at (map_of (concepts s) k))"
  by (auto simp: map_of_add_concept FashionConcept_init_def option.map_comp comp_def)

lemma keys_add_concept:
  "map fst (concepts (add_concept clk s nm cat attrs par)) =
     (if has_key (concepts s) nm then map fst (concepts s) else map fst (concepts s) @ [nm])"
  by (auto simp: add_concept_def Let_def FashionConcept_init_def keys_map_entry update_keys
        has_key_def)

lemma distinct_keys_add_concept:
  "distinct (map fst (concepts s)) \<Longrightarrow>
   distinct (map fst (concepts (add_concept clk s nm cat attrs par)))"
  by (auto simp: keys_add_concept has_key_def)

lemma edges_append: "edges (g @ h) = edges g @ edges h"
  by (simp add: edges_def)

lemma edges_ensure_node: "edges (ensure_node n g) = edges g"
  by (simp add: ensure_node_def edges_append) (simp add: edges_def)

lemma edges_set_attr: "edges (AList.map_entry n (\<lambda>(a, vs). (Some d, vs)) g) = edges g"
  by (induction g) (auto simp: edges_def)

lemma edges_add_node: "edges (add_node n d g) = edges g"
  by (simp add: add_node_def edges_append edges_set_attr) (simp add: edges_def)

lemma edges_Cons: "edges ((u, a, vs) # g) = map (Pair u) vs @ edges g"
  by (simp add: edges_def)

lemma has_key_Cons: "has_key ((k, x) # kvs) u \<longleftrightarrow> u = k \<or> has_key kvs u"
  by (auto simp: has_key_def)

lemma set_edges_add_succ:
  "has_key g u \<Longrightarrow>
   set (edges (AList.map_entry u (\<lambda>(a, vs). (a, if v \<in> set vs then vs else vs @ [v])) g)) =
     insert (u, v) (set (edges g))"
proof (induction g)
  case Nil
  then show ?case by (simp add: has_key_def)
next
  case (Cons x g)
  obtain k a vs where x: "x = (k, a, vs)" by (cases x) auto
  show ?case
  proof (cases "k = u")
    case True
    then show ?thesis unfolding x by (auto simp: edges_Cons)
  next
    case False
    with Cons.prems have "has_key g u" unfolding x by (simp add: has_key_Cons)
    from Cons.IH [OF this] False show ?thesis unfolding x by (simp add: edges_Cons)
  qed
qed

lemma has_key_ensure_node: "has_key (ensure_node n g) k \<longleftrightarrow> k = n \<or> has_key g k"
  by (auto simp: ensure_node_def has_key_def)

lemma set_edges_add_edge: "set (edges (add_edge u v g)) = insert (u, v) (set (edges g))"
  by (simp add: add_edge_def set_edges_add_succ has_key_ensure_node edges_ensure_node)

lemma graph_add_concept:
  "graph (add_concept clk s nm cat attrs par) =
     (let g = add_node nm (to_dict (fst (FashionConcept_init clk (now_calls s) nm cat attrs par)))
                (graph s)
      in if truthy par then add_edge (the par) nm g else g)"
  by (simp add: add_concept_def Let_def split: prod.splits)

lemma set_edges_add_concept:
  "set (edges (graph (add_concept clk s nm cat attrs par))) =
     (if truthy par then insert (the par, nm) (set (edges (graph s)))
      else set (edges (graph s)))"
  by (simp add: graph_add_concept Let_def set_edges_add_edge edges_add_node)

section \<open>The seeded ontology\<close>

lemmas seed_defs = FashionOntology_init_def initialize_base_structure_def
  add_attribute_categories_def new_store_def

lemma seeded_has_Denim: "has_key (concepts (FashionOntology_init clk)) ''Denim''"
  by (simp add: seed_defs has_key_add_concept)

lemma seeded_lacks_Velvet: "\<not> has_key (concepts (FashionOntology_init clk)) ''Velvet''"
  by (simp add: seed_defs has_key_add_concept) (simp add: has_key_def)

lemma seeded_parent_Fashion:
  "map_option parent (map_of (concepts (FashionOntology_init clk)) ''Fashion'') = Some None"
  by (simp add: seed_defs parent_add_concept)

section \<open>get_ancestry\<close>

lemma get_ancestry_no_parent:
  assumes "map_option parent (map_of (concepts s) nm) \<in> {None, Some None, Some (Some [])}"
  shows "get_ancestry s nm = Some [''Fashion'']"
  unfolding get_ancestry_def
  by (subst ancestry_walk.simps) (use assms in \<open>auto simp: truthy_def split: option.splits\<close>)

lemma seeded_ancestry_Fashion:
  "get_ancestry (FashionOntology_init clk) ''Fashion'' = Some [''Fashion'']"
  by (rule get_ancestry_no_parent) (simp add: seeded_parent_Fashion)

text \<open>
  C1, as the specification states it: the ancestry of the root holds the root label twice.
  On the seeded ontology it does not: the walk stops at \<^verbatim>\<open>Fashion\<close>, which has no parent,
  before recording it, and the label is appended once.
\<close>

theorem get_ancestry_root_not_twice:
  "get_ancestry (FashionOntology_init tick_clock) ''Fashion'' \<noteq> Some [''Fashion'', ''Fashion'']"
  by (simp add: seeded_ancestry_Fashion)

text \<open>
  C1, amended: on the seeded ontology, whatever the clock reads, \<^verbatim>\<open>get_ancestry("Fashion")\<close>
  returns the one-element sequence holding the root label.
\<close>

theorem get_ancestry_root_once:
  "get_ancestry (FashionOntology_init clk) ''Fashion'' = Some [''Fashion'']"
  by (rule seeded_ancestry_Fashion)

section \<open>suggest_new_concept\<close>

lemma those_dumps_json:
  "those (map dumps_item (map (\<lambda>(k, v). (StrKey k, JsonValue v)) kvs)) = Some kvs"
  by (induction kvs) auto

lemma dumps_attributes_json:
  "dumps_attributes (Some (map (\<lambda>(k, v). (StrKey k, JsonValue v)) kvs)) = Inr (Some kvs)"
  unfolding dumps_attributes_def by (simp only: those_dumps_json option.case)

lemma those_dumps_other:
  "(StrKey k, OtherValue) \<in> set kvs \<or> (OtherKey, v) \<in> set kvs \<Longrightarrow>
   those (map dumps_item kvs) = None"
  by (induction kvs) (auto split: option.splits)

text \<open>
  C7, as the specification states it: for a name that is not committed the proposal is
  recorded and the result is true. The proposal is recorded as \<^verbatim>\<open>json.dumps\<close> of its
  content, and for attributes that \<^verbatim>\<open>json.dumps\<close> refuses the call raises \<^verbatim>\<open>TypeError\<close>
  instead: nothing is recorded and nothing is returned.
\<close>

theorem suggest_new_concept_raises:
  "\<not> has_key (concepts (ontology (OntologyManager_init tick_clock))) ''Velvet'' \<and>
   suggest_new_concept (OntologyManager_init tick_clock) ''Velvet'' ''attribute''
     (Some [(StrKey ''colours'', OtherValue)]) (Some ''Material'') = Inl TypeError"
  by (simp add: suggest_new_concept_def dumps_attributes_def OntologyManager_init_def
        seeded_lacks_Velvet)

text \<open>
  C7, amended: \<^verbatim>\<open>suggest_new_concept\<close> returns false and changes nothing when the name is
  a committed concept, whatever the attributes. Otherwise, when the attributes are
  \<^verbatim>\<open>None\<close> or a dict of string keys and JSON values, it adds the proposal to the pending
  set and returns true; when the attributes hold a key or a value that \<^verbatim>\<open>json.dumps\<close>
  refuses, it raises \<^verbatim>\<open>TypeError\<close>. On a freshly seeded ontology it returns false for
  \<^verbatim>\<open>Denim\<close>, and true for the new name \<^verbatim>\<open>Velvet\<close> with serialisable attributes.
\<close>

theorem suggest_new_concept_guard:
  "(has_key (concepts (ontology m)) nm \<longrightarrow>
      suggest_new_concept m nm cat attrs par = Inr (False, m)) \<and>
   (\<not> has_key (concepts (ontology m)) nm \<longrightarrow>
      suggest_new_concept m nm cat None par =
        Inr (True, m\<lparr>pending_concepts :=
                       insert \<lparr>p_name = nm, p_category = cat, p_attributes = None, p_parent = par\<rparr>
                         (pending_concepts m)\<rparr>) \<and>
      suggest_new_concept m nm cat (Some (map (\<lambda>(k, v). (StrKey k, JsonValue v)) kvs)) par =
        Inr (True, m\<lparr>pending_concepts :=
                       insert \<lparr>p_name = nm, p_category = cat, p_attributes = Some kvs,
                               p_parent = par\<rparr>
                         (pending_concepts m)\<rparr>)) \<and>
   (\<not> has_key (concepts (ontology m)) nm \<and>
    ((StrKey k, OtherValue) \<in> set bad \<or> (OtherKey, v) \<in> set bad) \<longrightarrow>
      suggest_new_concept m nm cat (Some bad) par = Inl TypeError) \<and>
   suggest_new_concept (OntologyManager_init clk) ''Denim'' cat attrs par =
     Inr (False, OntologyManager_init clk) \<and>
   fst (projr (suggest_new_concept (OntologyManager_init clk) ''Velvet'' cat None par)) = True \<and>
   fst (projr (suggest_new_concept (OntologyManager_init clk) ''Velvet'' cat
                 (Some (map (\<lambda>(k, v). (StrKey k, JsonValue v)) kvs)) par)) = True"
proof -
  have b: "suggest_new_concept m nm cat (Some bad) par = Inl TypeError"
    if "\<not> has_key (concepts (ontology m)) nm"
      and "(StrKey k, OtherValue) \<in> set bad \<or> (OtherKey, v) \<in> set bad"
    using that those_dumps_other [of k bad v]
    by (simp add: suggest_new_concept_def dumps_attributes_def)
  have g: "suggest_new_concept m nm cat None par =
        Inr (True, m\<lparr>pending_concepts :=
                       insert \<lparr>p_name = nm, p_category = cat, p_attributes = None, p_parent = par\<rparr>
                         (pending_concepts m)\<rparr>) \<and>
      suggest_new_concept m nm cat (Some (map (\<lambda>(k, v). (StrKey k, JsonValue v)) kvs)) par =
        Inr (True, m\<lparr>pending_concepts :=
                       insert \<lparr>p_name = nm, p_category = cat, p_attributes = Some kvs,
                               p_parent = par\<rparr>
                         (pending_concepts m)\<rparr>)"
    if "\<not> has_key (concepts (ontology m)) nm"
    using that
    by (simp add: suggest_new_concept_def dumps_attributes_json) (simp add: dumps_attributes_def)
  have f: "suggest_new_concept m nm cat attrs par = Inr (False, m)"
    if "has_key (concepts (ontology m)) nm"
    using that by (simp add: suggest_new_concept_def)
  have s: "suggest_new_concept (OntologyManager_init clk) ''Denim'' cat attrs par =
     Inr (False, OntologyManager_init clk)"
    by (simp add: suggest_new_concept_def OntologyManager_init_def seeded_has_Denim)
  have v: "fst (projr (suggest_new_concept (OntologyManager_init clk) ''Velvet'' cat None par))
             = True"
    "fst (projr (suggest_new_concept (OntologyManager_init clk) ''Velvet'' cat
                   (Some (map (\<lambda>(k, v). (StrKey k, JsonValue v)) kvs)) par)) = True"
    by (simp_all add: suggest_new_concept_def OntologyManager_init_def seeded_lacks_Velvet
          dumps_attributes_json)
       (simp add: dumps_attributes_def)
  from b g f s v show ?thesis by blast
qed

theorem suggest_new_concept_guard_witness:
  "has_key (concepts (ontology (OntologyManager_init tick_clock))) ''Denim'' \<and>
   suggest_new_concept (OntologyManager_init tick_clock) ''Denim'' ''attribute''
       (Some [(StrKey ''colours'', OtherValue)]) (Some ''Material'') =
     Inr (False, OntologyManager_init tick_clock) \<and>
   \<not> has_key (concepts (ontology (OntologyManager_init tick_clock))) ''Velvet'' \<and>
   suggest_new_concept (OntologyManager_init tick_clock) ''Velvet'' ''attribute'' None
       (Some ''Material'') =
     Inr (True, (OntologyManager_init tick_clock)\<lparr>pending_concepts :=
        {\<lparr>p_name = ''Velvet'', p_category = ''attribute'', p_attributes = None,
           p_parent = Some ''Material''\<rparr>}\<rparr>) \<and>
   (StrKey ''colours'', OtherValue) \<in> set [(StrKey ''colours'', OtherValue)] \<and>
   suggest_new_concept (OntologyManager_init tick_clock) ''Velvet'' ''attribute''
       (Some [(StrKey ''colours'', OtherValue)]) (Some ''Material'') = Inl TypeError"
proof -
  have d: "has_key (concepts (ontology (OntologyManager_init tick_clock))) ''Denim''"
    and n: "\<not> has_key (concepts (ontology (OntologyManager_init tick_clock))) ''Velvet''"
    and e: "pending_concepts (OntologyManager_init tick_clock) = {}"
    by (simp_all add: OntologyManager_init_def seeded_has_Denim seeded_lacks_Velvet)
  have i: "(StrKey ''colours'', OtherValue) \<in> set [(StrKey ''colours'', OtherValue)]"
    by simp
  note t1 = suggest_new_concept_guard [where m = "OntologyManager_init tick_clock"
      and nm = "''Denim''" and cat = "''attribute''"
      and attrs = "Some [(StrKey ''colours'', OtherValue)]" and par = "Some ''Material''"]
  note t2 = suggest_new_concept_guard [where m = "OntologyManager_init tick_clock"
      and nm = "''Velvet''" and cat = "''attribute''" and par = "Some ''Material''"
      and k = "''colours''" and bad = "[(StrKey ''colours'', OtherValue)]"]
  from t1 d have a: "suggest_new_concept (OntologyManager_init tick_clock) ''Denim'' ''attribute''
       (Some [(StrKey ''colours'', OtherValue)]) (Some ''Material'') =
     Inr (False, OntologyManager_init tick_clock)"
    by blast
  from t2 n have b: "suggest_new_concept (OntologyManager_init tick_clock) ''Velvet''
       ''attribute'' None (Some ''Material'') =
     Inr (True, (OntologyManager_init tick_clock)\<lparr>pending_concepts :=
        insert \<lparr>p_name = ''Velvet'', p_category = ''attribute'', p_attributes = None,
                p_parent = Some ''Material''\<rparr>
          (pending_concepts (OntologyManager_init tick_clock))\<rparr>)"
    by blast
  from t2 n i have c: "suggest_new_concept (OntologyManager_init tick_clock) ''Velvet''
       ''attribute'' (Some [(StrKey ''colours'', OtherValue)]) (Some ''Material'') = Inl TypeError"
    by blast
  from d n a b c i e show ?thesis by simp
qed

section \<open>approve_concept\<close>

lemma approve_concept_cases:
  assumes "set (iter (pending_concepts m)) = pending_concepts m"
  shows "(find (\<lambda>c. p_name c = nm) (iter (pending_concepts m)) = None \<and>
           (\<forall>p\<in>pending_concepts m. p_name p \<noteq> nm)) \<or>
         (\<exists>p\<in>pending_concepts m. p_name p = nm \<and>
            find (\<lambda>c. p_name c = nm) (iter (pending_concepts m)) = Some p)"
proof (cases "find (\<lambda>c. p_name c = nm) (iter (pending_concepts m))")
  case None
  then have "\<forall>p\<in>set (iter (pending_concepts m)). p_name p \<noteq> nm"
    by (auto simp: find_None_iff)
  with None assms show ?thesis by simp
next
  case (Some p)
  then have "p \<in> set (iter (pending_concepts m))" and "p_name p = nm"
    by (auto simp: find_Some_iff)
  with Some assms show ?thesis by auto
qed

text \<open>
  C8: when no pending proposal has the name, \<^verbatim>\<open>approve_concept\<close> returns false and
  changes nothing, so it returns false on an empty pending set. When some pending
  proposal has the name, one of them is committed with \<^verbatim>\<open>add_concept\<close>, that proposal
  alone leaves the pending set, and the result is true. \<open>iter\<close> is the order in which the
  loop visits the pending set.
\<close>

theorem approve_concept_commits_one:
  assumes "set (iter (pending_concepts m)) = pending_concepts m"
  shows "((\<forall>p\<in>pending_concepts m. p_name p \<noteq> nm) \<longrightarrow>
            approve_concept clk iter m nm = (False, m)) \<and>
         ((\<exists>p\<in>pending_concepts m. p_name p = nm) \<longrightarrow>
            (\<exists>p\<in>pending_concepts m. p_name p = nm \<and>
               approve_concept clk iter m nm =
                 (True,
                  \<lparr>ontology = add_concept clk (ontology m) nm (p_category p) (p_attributes p)
                                 (p_parent p),
                   pending_concepts = pending_concepts m - {p}\<rparr>))) \<and>
         (pending_concepts m = {} \<longrightarrow> fst (approve_concept clk iter m nm) = False)"
  using approve_concept_cases [of iter m nm] assms
  by (auto simp: approve_concept_def)

lemma two_velvets_eq:
  "two_velvets clk =
     \<lparr>ontology = FashionOntology_init clk, pending_concepts = {velvet_b, velvet_a}\<rparr>"
  by (simp add: two_velvets_def suggest_new_concept_def dumps_attributes_def
        OntologyManager_init_def seeded_lacks_Velvet velvet_a_def velvet_b_def)

lemma velvet_a_neq_b: "velvet_a \<noteq> velvet_b"
  by (simp add: velvet_a_def velvet_b_def)

theorem approve_concept_commits_one_witness:
  "set (velvets_order (pending_concepts (two_velvets tick_clock))) =
     pending_concepts (two_velvets tick_clock) \<and>
   pending_concepts (two_velvets tick_clock) = {velvet_b, velvet_a} \<and>
   p_name velvet_b \<noteq> ''Satin'' \<and> p_name velvet_a \<noteq> ''Satin'' \<and>
   approve_concept tick_clock velvets_order (two_velvets tick_clock) ''Satin'' =
     (False, two_velvets tick_clock) \<and>
   p_name velvet_a = ''Velvet'' \<and>
   (\<exists>p\<in>pending_concepts (two_velvets tick_clock). p_name p = ''Velvet'' \<and>
      approve_concept tick_clock velvets_order (two_velvets tick_clock) ''Velvet'' =
        (True,
         \<lparr>ontology = add_concept tick_clock (ontology (two_velvets tick_clock)) ''Velvet''
                        (p_category p) (p_attributes p) (p_parent p),
          pending_concepts = pending_concepts (two_velvets tick_clock) - {p}\<rparr>))"
proof -
  have h: "set (velvets_order (pending_concepts (two_velvets tick_clock))) =
     pending_concepts (two_velvets tick_clock)"
    by (simp add: two_velvets_eq velvets_order_def)
  have q: "pending_concepts (two_velvets tick_clock) = {velvet_b, velvet_a}"
    by (simp add: two_velvets_eq)
  have s: "p_name velvet_b \<noteq> ''Satin''" "p_name velvet_a \<noteq> ''Satin''"
    and v: "p_name velvet_a = ''Velvet''"
    by (simp_all add: velvet_a_def velvet_b_def)
  from q s have n: "\<forall>p\<in>pending_concepts (two_velvets tick_clock). p_name p \<noteq> ''Satin''"
    by simp
  from q v have e: "\<exists>p\<in>pending_concepts (two_velvets tick_clock). p_name p = ''Velvet''"
    by blast
  from approve_concept_commits_one [of velvets_order "two_velvets tick_clock" "''Satin''" tick_clock]
    approve_concept_commits_one [of velvets_order "two_velvets tick_clock" "''Velvet''" tick_clock]
    h n e q s v
  show ?thesis by blast
qed

lemma new_concept_at_name:
  "map_of (concepts (add_concept clk s nm cat attrs par)) nm =
     Some \<lparr>name = nm, category = cat,
            attributes = (case attrs of None \<Rightarrow> [] | Some a \<Rightarrow> a),
            parent = par,
            children = (if truthy par \<and> the par = nm then {nm} else {}),
            created_at = clk (now_calls s), modified_at = clk (Suc (now_calls s))\<rparr>"
  by (auto simp: map_of_add_concept FashionConcept_init_def split: option.splits)

text \<open>
  C10: \<^verbatim>\<open>approve_concept\<close> does not look at the committed concepts. When the name of a
  pending proposal is already committed, the call still returns true, and the concept
  stored under the name afterwards is built from the approved proposal alone: its
  category, attributes and parent, fresh timestamps, and no children but itself when it
  is its own parent.
\<close>

theorem approve_concept_overwrites:
  assumes "set (iter (pending_concepts m)) = pending_concepts m"
    and "p \<in> pending_concepts m" and "p_name p = nm"
    and "has_key (concepts (ontology m)) nm"
  shows "\<exists>q\<in>pending_concepts m. p_name q = nm \<and>
           fst (approve_concept clk iter m nm) = True \<and>
           map_of (concepts (ontology (snd (approve_concept clk iter m nm)))) nm =
             Some \<lparr>name = nm, category = p_category q,
                    attributes = (case p_attributes q of None \<Rightarrow> [] | Some a \<Rightarrow> a),
                    parent = p_parent q,
                    children = (if truthy (p_parent q) \<and> the (p_parent q) = nm then {nm} else {}),
                    created_at = clk (now_calls (ontology m)),
                    modified_at = clk (Suc (now_calls (ontology m)))\<rparr>"
proof -
  from approve_concept_cases [of iter m nm] assms(1,2,3)
  obtain q where q: "q \<in> pending_concepts m" "p_name q = nm"
    "find (\<lambda>c. p_name c = nm) (iter (pending_concepts m)) = Some q"
    by blast
  have "approve_concept clk iter m nm =
          (True, \<lparr>ontology = add_concept clk (ontology m) nm (p_category q) (p_attributes q)
                               (p_parent q),
                  pending_concepts = pending_concepts m - {q}\<rparr>)"
    using q by (simp add: approve_concept_def)
  then show ?thesis
    using q(1,2) by (intro bexI [of _ q]) (simp_all add: new_concept_at_name)
qed

lemma velvet_committed_pending:
  "pending_concepts (velvet_committed clk) = {velvet_b, velvet_a}"
  by (simp add: velvet_committed_def two_velvets_eq)

lemma velvet_committed_has_key:
  "has_key (concepts (ontology (velvet_committed clk))) ''Velvet''"
  by (simp add: velvet_committed_def has_key_add_concept)

theorem approve_concept_overwrites_witness:
  "set (velvets_order (pending_concepts (velvet_committed tick_clock))) =
     pending_concepts (velvet_committed tick_clock) \<and>
   velvet_a \<in> pending_concepts (velvet_committed tick_clock) \<and>
   p_name velvet_a = ''Velvet'' \<and>
   has_key (concepts (ontology (velvet_committed tick_clock))) ''Velvet'' \<and>
   (\<exists>q\<in>pending_concepts (velvet_committed tick_clock). p_name q = ''Velvet'' \<and>
      fst (approve_concept tick_clock velvets_order (velvet_committed tick_clock) ''Velvet'') = True \<and>
      map_option attributes
        (map_of (concepts (ontology (snd (approve_concept tick_clock velvets_order
           (velvet_committed tick_clock) ''Velvet'')))) ''Velvet'') = Some [])"
proof -
  have h1: "set (velvets_order (pending_concepts (velvet_committed tick_clock))) =
     pending_concepts (velvet_committed tick_clock)"
    by (simp add: velvet_committed_pending velvets_order_def)
  have h2: "velvet_a \<in> pending_concepts (velvet_committed tick_clock)"
    by (simp add: velvet_committed_pending)
  have h3: "p_name velvet_a = ''Velvet''"
    by (simp add: velvet_a_def)
  have h4: "has_key (concepts (ontology (velvet_committed tick_clock))) ''Velvet''"
    by (rule velvet_committed_has_key)
  from approve_concept_overwrites [of velvets_order "velvet_committed tick_clock" velvet_a
      "''Velvet''" tick_clock, OF h1 h2 h3 h4]
  obtain q where q: "q \<in> pending_concepts (velvet_committed tick_clock)" "p_name q = ''Velvet''"
    "fst (approve_concept tick_clock velvets_order (velvet_committed tick_clock) ''Velvet'') = True"
    "map_of (concepts (ontology (snd (approve_concept tick_clock velvets_order
        (velvet_committed tick_clock) ''Velvet'')))) ''Velvet'' =
       Some \<lparr>name = ''Velvet'', category = p_category q,
              attributes = (case p_attributes q of None \<Rightarrow> [] | Some a \<Rightarrow> a),
              parent = p_parent q,
              children = (if truthy (p_parent q) \<and> the (p_parent q) = ''Velvet''
                          then {''Velvet''} else {}),
              created_at = tick_clock (now_calls (ontology (velvet_committed tick_clock))),
              modified_at = tick_clock (Suc (now_calls (ontology (velvet_committed tick_clock))))\<rparr>"
    by blast
  from q(1) have "p_attributes q = None"
    by (auto simp: velvet_committed_pending velvet_a_def velvet_b_def)
  with q h1 h2 h3 h4 show ?thesis by auto
qed

section \<open>find_related_concepts\<close>

lemma related_pairs_filter_aux:
  assumes "d1 \<le> d2"
  shows "concat (map (\<lambda>node.
            if node \<noteq> x then
              (case spl node of
                 None \<Rightarrow> []
               | Some distance \<Rightarrow> if int distance \<le> d1 then [(node, distance)] else [])
            else []) ns) =
         filter (\<lambda>p. int (snd p) \<le> d1)
           (concat (map (\<lambda>node.
              if node \<noteq> x then
                (case spl node of
                   None \<Rightarrow> []
                 | Some distance \<Rightarrow> if int distance \<le> d2 then [(node, distance)] else [])
              else []) ns))"
proof (induction ns)
  case Nil
  show ?case by simp
next
  case (Cons n ns)
  show ?case
  proof (cases "spl n")
    case None
    show ?thesis
      by (simp only: list.map concat.simps filter_append None option.case if_cancel)
         (simp add: Cons.IH)
  next
    case (Some k)
    have "filter (\<lambda>p. int (snd p) \<le> d1)
            (if n \<noteq> x then if int k \<le> d2 then [(n, k)] else [] else []) =
          (if n \<noteq> x then if int k \<le> d1 then [(n, k)] else [] else [])"
      using assms by simp
    then show ?thesis
      by (simp only: list.map concat.simps filter_append Some option.case Cons.IH)
  qed
qed

lemma related_pairs_filter:
  assumes "d1 \<le> d2"
  shows "related_pairs g x d1 = filter (\<lambda>p. int (snd p) \<le> d1) (related_pairs g x d2)"
  unfolding related_pairs_def by (rule related_pairs_filter_aux [OF assms])

text \<open>
  C9: the names returned for a smaller \<^verbatim>\<open>max_distance\<close> are among those returned for a
  larger one, and the result is no longer.
\<close>

theorem find_related_concepts_monotone:
  assumes "d1 \<le> d2"
  shows "set (find_related_concepts s x d1) \<subseteq> set (find_related_concepts s x d2) \<and>
         length (find_related_concepts s x d1) \<le> length (find_related_concepts s x d2)"
proof (cases "x \<in> set (nodes (graph s))")
  case False
  then show ?thesis by (simp add: find_related_concepts_def)
next
  case True
  have "find_related_concepts s x d1 =
          map fst (filter (\<lambda>p. int (snd p) \<le> d1) (sort_key snd (related_pairs (graph s) x d2)))"
    using True by (simp add: find_related_concepts_def related_pairs_filter [OF assms] filter_sort)
  moreover have "find_related_concepts s x d2 =
          map fst (sort_key snd (related_pairs (graph s) x d2))"
    using True by (simp add: find_related_concepts_def)
  ultimately show ?thesis
    using length_filter_le [of "\<lambda>p. int (snd p) \<le> d1"
        "sort_key snd (related_pairs (graph s) x d2)"]
    by auto
qed

theorem find_related_concepts_monotone_witness:
  "(0::int) \<le> 1 \<and>
   set (find_related_concepts (scenario_store tick_clock) ''Apparel'' 0)
     \<subseteq> set (find_related_concepts (scenario_store tick_clock) ''Apparel'' 1) \<and>
   length (find_related_concepts (scenario_store tick_clock) ''Apparel'' 0)
     \<le> length (find_related_concepts (scenario_store tick_clock) ''Apparel'' 1)"
  using find_related_concepts_monotone [of 0 1 "scenario_store tick_clock" "''Apparel''"]
  by simp

subsection \<open>The scenario store\<close>

lemma nodes_add_node: "nodes (add_node n d g) = (if has_key g n then nodes g else nodes g @ [n])"
  by (simp add: add_node_def nodes_def keys_map_entry)

lemma scenario_graph:
  "graph (scenario_store clk) =
     [(''Fashion'', Some \<lparr>d_name = ''Fashion'', d_category = ''root'', d_attributes = [],
          d_parent = None, d_children = {}, d_created_at = clk 0, d_modified_at = clk 1\<rparr>,
        [''Apparel'']),
      (''Apparel'', Some \<lparr>d_name = ''Apparel'', d_category = ''main_category'', d_attributes = [],
          d_parent = Some ''Fashion'', d_children = {}, d_created_at = clk 2, d_modified_at = clk 3\<rparr>,
        [''Dresses'']),
      (''Dresses'', Some \<lparr>d_name = ''Dresses'', d_category = ''sub_category'', d_attributes = [],
          d_parent = Some ''Apparel'', d_children = {}, d_created_at = clk 4, d_modified_at = clk 5\<rparr>,
        [])]"
  by (simp add: scenario_store_def graph_add_concept now_calls_add_concept new_store_def
        empty_graph_def Let_def truthy_def FashionConcept_init_def to_dict_def add_node_def
        add_edge_def ensure_node_def has_key_def numeral_2_eq_2 numeral_3_eq_3 eval_nat_numeral)

lemma scenario_related:
  "find_related_concepts (scenario_store clk) ''Apparel'' 1 = [''Dresses'']"
  by (simp add: find_related_concepts_def related_pairs_def shortest_path_length_def
        scenario_graph nodes_def next_level_def successors_def)

lemma scenario_distances:
  "shortest_path_length (graph (scenario_store clk)) ''Apparel'' ''Dresses'' = Some 1 \<and>
   shortest_path_length (graph (scenario_store clk)) ''Apparel'' ''Fashion'' = None"
  by (simp add: shortest_path_length_def scenario_graph nodes_def next_level_def successors_def)

text \<open>
  C3, as the specification states it: in the scenario store the concepts related to
  \<^verbatim>\<open>Apparel\<close> within distance 1 are \<^verbatim>\<open>Fashion\<close> and \<^verbatim>\<open>Dresses\<close>. The search follows the
  edges from parent to child only, so \<^verbatim>\<open>Fashion\<close> is not found.
\<close>

theorem scenario_related_not_both:
  "set (find_related_concepts (scenario_store tick_clock) ''Apparel'' 1) \<noteq>
     {''Fashion'', ''Dresses''}"
  by (simp add: scenario_related)

text \<open>
  C3, amended: in the scenario store \<^verbatim>\<open>find_related_concepts("Apparel", 1)\<close> returns
  \<^verbatim>\<open>Dresses\<close> alone, at distance 1; there is no directed path from \<^verbatim>\<open>Apparel\<close> to
  \<^verbatim>\<open>Fashion\<close>.
\<close>

theorem scenario_related_children_only:
  "find_related_concepts (scenario_store clk) ''Apparel'' 1 = [''Dresses''] \<and>
   shortest_path_length (graph (scenario_store clk)) ''Apparel'' ''Dresses'' = Some 1 \<and>
   shortest_path_length (graph (scenario_store clk)) ''Apparel'' ''Fashion'' = None"
  by (simp add: scenario_related scenario_distances)

section \<open>add_concept and the parent\<close>

lemma get_children_conv:
  "get_children s nm =
     (case map_option children (map_of (concepts s) nm) of Some c \<Rightarrow> c | None \<Rightarrow> {})"
  by (simp add: get_children_def split: option.splits)

lemma seeded_no_edge_from_empty:
  "([], ''Velvet'') \<notin> set (edges (graph (FashionOntology_init clk)))"
  by (simp add: seed_defs set_edges_add_concept truthy_def) (simp add: edges_def empty_graph_def)

text \<open>
  C6, as the specification states it: for every parent other than \<^verbatim>\<open>None\<close> the edge is
  added, and the name enters the children set of the parent exactly when the parent was
  known before the call. Both fail on the seeded ontology: the empty string is a parent
  other than \<^verbatim>\<open>None\<close> for which the test \<^verbatim>\<open>if parent:\<close> adds no edge, and a new concept
  that is its own parent enters its own children set, because the parent is looked up
  after the concept is registered.
\<close>

theorem add_concept_parent_link_fails:
  "([], ''Velvet'') \<notin>
     set (edges (graph (add_concept tick_clock (FashionOntology_init tick_clock) ''Velvet''
                          ''attribute'' None (Some [])))) \<and>
   \<not> has_key (concepts (FashionOntology_init tick_clock)) ''Velvet'' \<and>
   ''Velvet'' \<in> get_children
       (add_concept tick_clock (FashionOntology_init tick_clock) ''Velvet'' ''attribute'' None
          (Some ''Velvet''))
       ''Velvet''"
  by (simp add: set_edges_add_concept seeded_no_edge_from_empty seeded_lacks_Velvet
        get_children_conv children_add_concept truthy_def)

text \<open>
  C6, amended: for a parent that is neither \<^verbatim>\<open>None\<close> nor the empty string, the edge from
  the parent to the name is in the graph after the call; the name is in the children set
  of the parent after the call exactly when the parent was a known concept before the
  call or is the name itself; a known parent other than the name keeps its fields and
  gains the name as a child; every concept other than the parent and the name is
  unchanged, and when the parent is unknown and is not the name, every concept other than
  the name is unchanged. The call returns a store in every case.
\<close>

theorem add_concept_parent_link:
  assumes "par = Some p" and "p \<noteq> []"
  shows "(p, nm) \<in> set (edges (graph (add_concept clk s nm cat attrs par))) \<and>
         ((\<exists>pc. map_of (concepts (add_concept clk s nm cat attrs par)) p = Some pc \<and>
                nm \<in> children pc) \<longleftrightarrow>
            (has_key (concepts s) p \<or> p = nm)) \<and>
         (has_key (concepts s) p \<and> p \<noteq> nm \<longrightarrow>
            map_of (concepts (add_concept clk s nm cat attrs par)) p =
              map_option (\<lambda>pc. pc\<lparr>children := insert nm (children pc)\<rparr>)
                (map_of (concepts s) p)) \<and>
         (\<forall>k. k \<noteq> p \<and> k \<noteq> nm \<longrightarrow>
            map_of (concepts (add_concept clk s nm cat attrs par)) k = map_of (concepts s) k) \<and>
         (\<not> has_key (concepts s) p \<and> p \<noteq> nm \<longrightarrow>
            (\<forall>k. k \<noteq> nm \<longrightarrow>
               map_of (concepts (add_concept clk s nm cat attrs par)) k =
                 map_of (concepts s) k))"
proof -
  have t: "truthy par" "the par = p"
    using assms by (simp_all add: truthy_def)
  have e: "(p, nm) \<in> set (edges (graph (add_concept clk s nm cat attrs par)))"
    by (simp add: set_edges_add_concept t)
  have c: "(\<exists>pc. map_of (concepts (add_concept clk s nm cat attrs par)) p = Some pc \<and>
                nm \<in> children pc) \<longleftrightarrow> (has_key (concepts s) p \<or> p = nm)"
    by (auto simp: map_of_add_concept t has_key_map_of)
  have k: "has_key (concepts s) p \<and> p \<noteq> nm \<longrightarrow>
            map_of (concepts (add_concept clk s nm cat attrs par)) p =
              map_option (\<lambda>pc. pc\<lparr>children := insert nm (children pc)\<rparr>)
                (map_of (concepts s) p)"
    by (simp add: map_of_add_concept t)
  have o: "\<forall>k. k \<noteq> p \<and> k \<noteq> nm \<longrightarrow>
            map_of (concepts (add_concept clk s nm cat attrs par)) k = map_of (concepts s) k"
    by (simp add: map_of_add_concept t)
  have u: "\<not> has_key (concepts s) p \<and> p \<noteq> nm \<longrightarrow>
            (\<forall>k. k \<noteq> nm \<longrightarrow>
               map_of (concepts (add_concept clk s nm cat attrs par)) k =
                 map_of (concepts s) k)"
    by (auto simp: map_of_add_concept t has_key_map_of)
  from e c k o u show ?thesis by blast
qed

theorem add_concept_parent_link_witness:
  "Some ''Material'' = Some ''Material'' \<and> ''Material'' \<noteq> [] \<and>
   (''Material'', ''Velvet'') \<in>
     set (edges (graph (add_concept tick_clock (FashionOntology_init tick_clock) ''Velvet''
                          ''attribute'' None (Some ''Material'')))) \<and>
   has_key (concepts (FashionOntology_init tick_clock)) ''Material'' \<and>
   ''Velvet'' \<in> get_children
       (add_concept tick_clock (FashionOntology_init tick_clock) ''Velvet'' ''attribute'' None
          (Some ''Material''))
       ''Material''"
proof -
  have m: "has_key (concepts (FashionOntology_init tick_clock)) ''Material''"
    by (simp add: seed_defs has_key_add_concept)
  let ?s = "add_concept tick_clock (FashionOntology_init tick_clock) ''Velvet'' ''attribute''
              None (Some ''Material'')"
  have n: "''Material'' \<noteq> []" by simp
  note th = add_concept_parent_link [of "Some ''Material''" "''Material''" "''Velvet''" tick_clock
      "FashionOntology_init tick_clock" "''attribute''" None, OF refl n]
  from th have e: "(''Material'', ''Velvet'') \<in> set (edges (graph ?s))"
    by (rule conjunct1)
  from th have "(\<exists>pc. map_of (concepts ?s) ''Material'' = Some pc \<and> ''Velvet'' \<in> children pc) \<longleftrightarrow>
      (has_key (concepts (FashionOntology_init tick_clock)) ''Material'' \<or> ''Material'' = ''Velvet'')"
    by (rule conjunct1 [OF conjunct2])
  with m obtain pc where "map_of (concepts ?s) ''Material'' = Some pc" "''Velvet'' \<in> children pc"
    by blast
  then have c: "''Velvet'' \<in> get_children ?s ''Material''"
    by (simp add: get_children_def)
  from e m c n show ?thesis by simp
qed

section \<open>export_to_json and import_from_json\<close>

lemma replay_tuple:
  "replay clk (nm, cat, attrs, par) s = add_concept clk s nm cat (Some attrs) par"
  by (simp add: replay_def)

lemma import_from_json_replay:
  "import_from_json clk s doc =
     fold (replay clk) (read_fields doc) (s\<lparr>concepts := [], graph := empty_graph\<rparr>)"
proof -
  have "(\<lambda>(nm, concept_data) s.
           add_concept clk s nm (d_category concept_data) (Some (d_attributes concept_data))
             (d_parent concept_data)) =
        replay clk \<circ> (\<lambda>(nm, d). (nm, d_category d, d_attributes d, d_parent d))"
    by (auto simp: fun_eq_iff replay_def)
  then show ?thesis
    unfolding import_from_json_def read_fields_def fold_map
    by (rule arg_cong [where f = "\<lambda>f. fold f (doc_concepts doc) (s\<lparr>concepts := [], graph := empty_graph\<rparr>)"])
qed

lemma import_reads_fields_only:
  "read_fields doc' = read_fields doc \<Longrightarrow>
   import_from_json clk s doc' = import_from_json clk s doc"
  by (simp add: import_from_json_replay)

lemma read_fields_export:
  "read_fields (export_to_json s) =
     map (\<lambda>(nm, c). (nm, category c, attributes c, parent c)) (concepts s)"
  by (simp add: read_fields_def export_to_json_def to_dict_def case_prod_unfold)





lemma now_calls_replay: "now_calls s0 \<le> now_calls (fold (replay clk) l s0)"
proof (induction l arbitrary: s0)
  case Nil
  show ?case by simp
next
  case (Cons x l)
  have "now_calls s0 \<le> now_calls (replay clk x s0)"
    by (cases x) (simp add: replay_tuple now_calls_add_concept)
  also have "\<dots> \<le> now_calls (fold (replay clk) l (replay clk x s0))"
    by (rule Cons.IH)
  finally show ?case by simp
qed

lemma times_add_concept:
  "map_option (\<lambda>c. (created_at c, modified_at c))
     (map_of (concepts (add_concept clk s nm cat attrs par)) k) =
   (if k = nm then Some (clk (now_calls s), clk (Suc (now_calls s)))
    else map_option (\<lambda>c. (created_at c, modified_at c)) (map_of (concepts s) k))"
  by (auto simp: map_of_add_concept FashionConcept_init_def option.map_comp comp_def)

lemma times_replay:
  "map_option (\<lambda>c. (created_at c, modified_at c)) (map_of (concepts (fold (replay clk) l s0)) k)
     = Some t \<Longrightarrow>
   map_option (\<lambda>c. (created_at c, modified_at c)) (map_of (concepts s0) k) = Some t \<or>
   (\<exists>j\<ge>now_calls s0. t = (clk j, clk (Suc j)))"
proof (induction l arbitrary: s0)
  case Nil
  then show ?case by simp
next
  case (Cons x l)
  obtain nm cat attrs par where x: "x = (nm, cat, attrs, par)" by (cases x) auto
  let ?s1 = "add_concept clk s0 nm cat (Some attrs) par"
  from Cons.prems have
    "map_option (\<lambda>c. (created_at c, modified_at c)) (map_of (concepts (fold (replay clk) l ?s1)) k)
       = Some t"
    by (simp add: x replay_tuple)
  from Cons.IH [OF this] show ?case
  proof
    assume "map_option (\<lambda>c. (created_at c, modified_at c)) (map_of (concepts ?s1) k) = Some t"
    then show ?thesis
      by (auto simp: times_add_concept split: if_splits)
  next
    assume "\<exists>j\<ge>now_calls ?s1. t = (clk j, clk (Suc j))"
    then obtain j where "now_calls ?s1 \<le> j" "t = (clk j, clk (Suc j))" by blast
    then have "now_calls s0 \<le> j" by (simp add: now_calls_add_concept)
    with \<open>t = _\<close> show ?thesis by blast
  qed
qed

lemma import_times:
  assumes "map_of (concepts (import_from_json clk s doc)) nm = Some c"
  shows "\<exists>j\<ge>now_calls s. created_at c = clk j \<and> modified_at c = clk (Suc j)"
proof -
  from assms have
    "map_option (\<lambda>c. (created_at c, modified_at c))
       (map_of (concepts (fold (replay clk) (read_fields doc)
          (s\<lparr>concepts := [], graph := empty_graph\<rparr>))) nm) = Some (created_at c, modified_at c)"
    by (simp add: import_from_json_replay)
  from times_replay [OF this] show ?thesis by simp
qed

lemma has_key_replay:
  "has_key (concepts (fold (replay clk) l s0)) k \<longleftrightarrow> k \<in> fst ` set l \<or> has_key (concepts s0) k"
proof (induction l arbitrary: s0)
  case Nil
  show ?case by simp
next
  case (Cons x l)
  obtain nm cat attrs par where x: "x = (nm, cat, attrs, par)" by (cases x) auto
  show ?case
    by (auto simp: Cons.IH x replay_tuple has_key_add_concept)
qed

lemma keys_read_fields_export: "map fst (read_fields (export_to_json s)) = map fst (concepts s)"
  by (simp add: read_fields_export case_prod_unfold)


lemma has_key_import_export:
  "has_key (concepts (import_from_json clk t (export_to_json s))) k \<longleftrightarrow> has_key (concepts s) k"
proof -
  have "fst ` set (read_fields (export_to_json s)) = fst ` set (concepts s)"
    using keys_read_fields_export [of s] by (metis set_map)
  then show ?thesis
    by (simp add: import_from_json_replay has_key_replay) (simp add: has_key_def)
qed






lemma scenario_keys:
  "map fst (concepts (scenario_store clk)) = [''Fashion'', ''Apparel'', ''Dresses'']"
  by (simp add: scenario_store_def keys_add_concept has_key_add_concept new_store_def)
     (simp add: has_key_def)


lemma seeded_created_at_Fashion:
  "map_option created_at (map_of (concepts (FashionOntology_init clk)) ''Fashion'') = Some (clk 0)"
  by (simp add: seed_defs created_at_add_concept)

lemma seeded_has_Fashion: "has_key (concepts (FashionOntology_init clk)) ''Fashion''"
  by (simp add: seed_defs has_key_add_concept)

lemma seeded_now_calls: "0 < now_calls (FashionOntology_init clk)"
  by (simp add: seed_defs now_calls_add_concept)

text \<open>
  C5, as the specification assumes it: the reimported concepts keep their exported
  timestamps. With a clock that advances, the root of the seeded ontology does not:
  \<^verbatim>\<open>import_from_json\<close> builds every concept anew, and a new concept reads the clock.
\<close>

theorem import_changes_created_at:
  "map_option created_at
     (map_of (concepts (import_from_json tick_clock (FashionOntology_init tick_clock)
                          (export_to_json (FashionOntology_init tick_clock)))) ''Fashion'') \<noteq>
   map_option created_at (map_of (concepts (FashionOntology_init tick_clock)) ''Fashion'')"
proof -
  let ?s = "FashionOntology_init tick_clock"
  let ?s' = "import_from_json tick_clock ?s (export_to_json ?s)"
  have "has_key (concepts ?s') ''Fashion''"
    by (simp add: has_key_import_export seeded_has_Fashion)
  then obtain c where c: "map_of (concepts ?s') ''Fashion'' = Some c"
    by (auto simp: has_key_map_of)
  from import_times [OF c] obtain j where "now_calls ?s \<le> j" "created_at c = tick_clock j"
    by blast
  with seeded_now_calls [of tick_clock] have "created_at c \<noteq> 0"
    by (simp add: tick_clock_def)
  with c show ?thesis
    by (simp add: seeded_created_at_Fashion tick_clock_def)
qed

text \<open>
  C5, amended: an import regenerates the timestamps. Every concept of the store after
  \<^verbatim>\<open>import_from_json\<close> has as \<^verbatim>\<open>created_at\<close> and \<^verbatim>\<open>modified_at\<close> two consecutive readings
  of the clock, taken after all the readings made for the store before the import; and
  the import does not read the timestamps of the document, so two documents with the same
  names, categories, attributes and parents give the same store.
\<close>

theorem import_regenerates_timestamps:
  "(\<forall>nm c. map_of (concepts (import_from_json clk s doc)) nm = Some c \<longrightarrow>
      (\<exists>j\<ge>now_calls s. created_at c = clk j \<and> modified_at c = clk (Suc j))) \<and>
   (\<forall>doc'. read_fields doc' = read_fields doc \<longrightarrow>
      import_from_json clk s doc' = import_from_json clk s doc)"
  using import_times import_reads_fields_only by blast

theorem import_regenerates_timestamps_witness:
  "(\<exists>c. map_of (concepts (import_from_json tick_clock (FashionOntology_init tick_clock)
                             (export_to_json (FashionOntology_init tick_clock)))) ''Fashion'' =
          Some c \<and>
        (\<exists>j\<ge>now_calls (FashionOntology_init tick_clock).
           created_at c = tick_clock j \<and> modified_at c = tick_clock (Suc j))) \<and>
   read_fields ((export_to_json (FashionOntology_init tick_clock))\<lparr>doc_relationships := []\<rparr>) =
     read_fields (export_to_json (FashionOntology_init tick_clock)) \<and>
   import_from_json tick_clock (FashionOntology_init tick_clock)
       ((export_to_json (FashionOntology_init tick_clock))\<lparr>doc_relationships := []\<rparr>) =
     import_from_json tick_clock (FashionOntology_init tick_clock)
       (export_to_json (FashionOntology_init tick_clock))"
proof -
  let ?s = "FashionOntology_init tick_clock"
  let ?s' = "import_from_json tick_clock ?s (export_to_json ?s)"
  have "has_key (concepts ?s') ''Fashion''"
    by (simp add: has_key_import_export seeded_has_Fashion)
  then obtain c where c: "map_of (concepts ?s') ''Fashion'' = Some c"
    by (auto simp: has_key_map_of)
  have r: "read_fields ((export_to_json ?s)\<lparr>doc_relationships := []\<rparr>) =
     read_fields (export_to_json ?s)"
    by (simp add: read_fields_def)
  note th = import_regenerates_timestamps [of tick_clock ?s "export_to_json ?s"]
  from th c have "\<exists>j\<ge>now_calls ?s. created_at c = tick_clock j \<and> modified_at c = tick_clock (Suc j)"
    by blast
  moreover from th r have "import_from_json tick_clock ?s
       ((export_to_json ?s)\<lparr>doc_relationships := []\<rparr>) = ?s'"
    by blast
  ultimately show ?thesis using c r by blast
qed

section \<open>The children sets and the parent fields\<close>

lemma has_key_keys: "has_key kvs k \<longleftrightarrow> k \<in> set (map fst kvs)"
  by (simp add: has_key_def)

lemma in_set_map_of: "distinct (map fst cs) \<Longrightarrow> (k, v) \<in> set cs \<longleftrightarrow> map_of cs k = Some v"
  by (auto dest: map_of_SomeD)

lemma seeded_children_Style:
  "map_option children (map_of (concepts (FashionOntology_init clk)) ''Style'') =
     Some {''Casual'', ''Formal'', ''Athletic'', ''Bohemian'', ''Classic''}"
  by (simp add: seed_defs children_add_concept truthy_def insert_commute)

lemma seeded_parent_Casual:
  "map_option parent (map_of (concepts (FashionOntology_init clk)) ''Casual'') =
     Some (Some ''Occasion'')"
  by (simp add: seed_defs parent_add_concept)

lemma child_of_other_parent:
  assumes "map_of cs P = Some p" and "C \<in> children p"
    and "map_option parent (map_of cs C) \<noteq> Some (Some P)"
  shows "\<not> children_consistent cs"
proof
  assume "children_consistent cs"
  then have "\<forall>(pn, p) \<in> set cs. \<forall>cn \<in> children p.
               (case map_of cs cn of None \<Rightarrow> False | Some c \<Rightarrow> parent c = Some pn)"
    by (simp add: children_consistent_def)
  moreover from assms(1) have "(P, p) \<in> set cs"
    by (rule map_of_SomeD)
  ultimately have "case map_of cs C of None \<Rightarrow> False | Some c \<Rightarrow> parent c = Some P"
    using assms(2) by blast
  with assms(3) show False
    by (simp split: option.splits)
qed

lemma parent_unknown:
  assumes "map_of cs C = Some c" and "parent c = Some P" and "map_of cs P = None"
  shows "\<not> children_consistent cs"
proof
  assume "children_consistent cs"
  then have "\<forall>(cn, c) \<in> set cs.
               (case parent c of
                  None \<Rightarrow> True
                | Some pn \<Rightarrow> (case map_of cs pn of None \<Rightarrow> False | Some p \<Rightarrow> cn \<in> children p))"
    by (simp add: children_consistent_def)
  moreover from assms(1) have "(C, c) \<in> set cs"
    by (rule map_of_SomeD)
  ultimately have "case parent c of
                  None \<Rightarrow> True
                | Some pn \<Rightarrow> (case map_of cs pn of None \<Rightarrow> False | Some p \<Rightarrow> C \<in> children p)"
    by blast
  with assms(2,3) show False by simp
qed

lemma scenario_concepts:
  "concepts (scenario_store clk) =
     [(''Fashion'', \<lparr>name = ''Fashion'', category = ''root'', attributes = [], parent = None,
         children = {''Apparel''}, created_at = clk 0, modified_at = clk 1\<rparr>),
      (''Apparel'', \<lparr>name = ''Apparel'', category = ''main_category'', attributes = [],
         parent = Some ''Fashion'', children = {''Dresses''}, created_at = clk 2,
         modified_at = clk 3\<rparr>),
      (''Dresses'', \<lparr>name = ''Dresses'', category = ''sub_category'', attributes = [],
         parent = Some ''Apparel'', children = {}, created_at = clk 4, modified_at = clk 5\<rparr>)]"
  by (simp add: scenario_store_def add_concept_def new_store_def Let_def truthy_def
        FashionConcept_init_def has_key_def numeral_2_eq_2 numeral_3_eq_3 eval_nat_numeral)

lemma scenario_consistent: "children_consistent (concepts (scenario_store clk))"
  by (simp add: scenario_concepts children_consistent_def)

lemma seeded_not_consistent: "\<not> children_consistent (concepts (FashionOntology_init clk))"
proof -
  from seeded_children_Style [of clk]
  obtain p where "map_of (concepts (FashionOntology_init clk)) ''Style'' = Some p"
    and "''Casual'' \<in> children p"
    by auto
  then show ?thesis
    by (rule child_of_other_parent) (simp add: seeded_parent_Casual)
qed

lemma unknown_parent_not_consistent:
  "\<not> children_consistent
       (concepts (add_concept clk (scenario_store clk) ''Velvet'' ''attribute'' None
                    (Some ''Material'')))"
proof -
  let ?s = "add_concept clk (scenario_store clk) ''Velvet'' ''attribute'' None (Some ''Material'')"
  obtain c where c: "map_of (concepts ?s) ''Velvet'' = Some c" "parent c = Some ''Material''"
    by (simp add: new_concept_at_name)
  have "\<not> has_key (concepts ?s) ''Material''"
    by (simp add: has_key_add_concept) (simp only: has_key_keys scenario_keys, simp)
  then have "map_of (concepts ?s) ''Material'' = None"
    by (simp add: has_key_map_of)
  with c show ?thesis by (rule parent_unknown)
qed

text \<open>
  C2, as the specification states it: the consistency of children sets and parent fields
  holds of the freshly seeded ontology and is preserved by every operation. The seeded
  ontology violates it: the seed adds \<^verbatim>\<open>Casual\<close> under \<^verbatim>\<open>Style\<close> and again under
  \<^verbatim>\<open>Occasion\<close>, so \<^verbatim>\<open>Casual\<close> stays a child of \<^verbatim>\<open>Style\<close> while its parent is \<^verbatim>\<open>Occasion\<close>. And
  \<^verbatim>\<open>add_concept\<close> does not preserve it: the scenario store is consistent, and adding a
  concept under the unknown parent \<^verbatim>\<open>Material\<close> leaves a parent that does not exist.
\<close>

theorem children_consistent_fails:
  "\<not> children_consistent (concepts (FashionOntology_init tick_clock)) \<and>
   children_consistent (concepts (scenario_store tick_clock)) \<and>
   \<not> children_consistent
       (concepts (add_concept tick_clock (scenario_store tick_clock) ''Velvet'' ''attribute''
                    None (Some ''Material'')))"
  by (simp add: seeded_not_consistent scenario_consistent unknown_parent_not_consistent)

lemma back_referenced_iff:
  assumes "distinct (map fst cs)"
  shows "back_referenced cs \<longleftrightarrow>
           (\<forall>C P. map_option parent (map_of cs C) = Some (Some P) \<longrightarrow>
                    (\<exists>X. map_option children (map_of cs P) = Some X \<and> C \<in> X))"
proof
  assume b: "back_referenced cs"
  show "\<forall>C P. map_option parent (map_of cs C) = Some (Some P) \<longrightarrow>
                (\<exists>X. map_option children (map_of cs P) = Some X \<and> C \<in> X)"
  proof (intro allI impI)
    fix C P
    assume "map_option parent (map_of cs C) = Some (Some P)"
    then obtain c where c: "map_of cs C = Some c" "parent c = Some P" by auto
    from c(1) have "(C, c) \<in> set cs" by (rule map_of_SomeD)
    with b have "case parent c of
                   None \<Rightarrow> True
                 | Some pn \<Rightarrow> (case map_of cs pn of None \<Rightarrow> False | Some p \<Rightarrow> C \<in> children p)"
      unfolding back_referenced_def by blast
    with c(2) show "\<exists>X. map_option children (map_of cs P) = Some X \<and> C \<in> X"
      by (simp split: option.splits)
  qed
next
  assume r: "\<forall>C P. map_option parent (map_of cs C) = Some (Some P) \<longrightarrow>
                (\<exists>X. map_option children (map_of cs P) = Some X \<and> C \<in> X)"
  show "back_referenced cs"
    unfolding back_referenced_def
  proof (intro ballI, clarify)
    fix cn c
    assume "(cn, c) \<in> set cs"
    with assms have m: "map_of cs cn = Some c" by simp
    show "case parent c of
            None \<Rightarrow> True
          | Some pn \<Rightarrow> (case map_of cs pn of None \<Rightarrow> False | Some p \<Rightarrow> cn \<in> children p)"
    proof (cases "parent c")
      case None
      then show ?thesis by simp
    next
      case (Some pn)
      with m have "map_option parent (map_of cs cn) = Some (Some pn)" by simp
      with r obtain X where "map_option children (map_of cs pn) = Some X" "cn \<in> X" by blast
      with Some show ?thesis by auto
    qed
  qed
qed

lemma parents_within_iff:
  assumes "distinct (map fst cs)"
  shows "parents_within A cs \<longleftrightarrow>
           (\<forall>C P. map_option parent (map_of cs C) = Some (Some P) \<longrightarrow> P \<in> A)"
proof
  assume w: "parents_within A cs"
  show "\<forall>C P. map_option parent (map_of cs C) = Some (Some P) \<longrightarrow> P \<in> A"
  proof (intro allI impI)
    fix C P
    assume "map_option parent (map_of cs C) = Some (Some P)"
    then obtain c where c: "map_of cs C = Some c" "parent c = Some P" by auto
    from c(1) have "(C, c) \<in> set cs" by (rule map_of_SomeD)
    with w have "case parent c of None \<Rightarrow> True | Some pn \<Rightarrow> pn \<in> A"
      unfolding parents_within_def by blast
    with c(2) show "P \<in> A" by simp
  qed
next
  assume r: "\<forall>C P. map_option parent (map_of cs C) = Some (Some P) \<longrightarrow> P \<in> A"
  show "parents_within A cs"
    unfolding parents_within_def
  proof (intro ballI, clarify)
    fix cn c
    assume "(cn, c) \<in> set cs"
    with assms have m: "map_of cs cn = Some c" by simp
    show "case parent c of None \<Rightarrow> True | Some pn \<Rightarrow> pn \<in> A"
    proof (cases "parent c")
      case None
      then show ?thesis by simp
    next
      case (Some pn)
      with m have "map_option parent (map_of cs cn) = Some (Some pn)" by simp
      with r Some show ?thesis by simp
    qed
  qed
qed

text \<open>
  Adding a concept keeps the back references when no concept names the added name as
  its parent, and the parent given is \<^verbatim>\<open>None\<close>, or is non-empty and is known or is the
  added name.
\<close>

lemma back_referenced_add_concept:
  assumes d: "distinct (map fst (concepts s))"
    and b: "back_referenced (concepts s)"
    and nd: "\<And>C. map_option parent (map_of (concepts s) C) \<noteq> Some (Some nm)"
    and p: "par = None \<or> (\<exists>p. par = Some p \<and> p \<noteq> [] \<and> (has_key (concepts s) p \<or> p = nm))"
  shows "back_referenced (concepts (add_concept clk s nm cat attrs par))"
proof -
  let ?s' = "add_concept clk s nm cat attrs par"
  have d': "distinct (map fst (concepts ?s'))"
    by (rule distinct_keys_add_concept [OF d])
  from b have i: "\<And>C P. map_option parent (map_of (concepts s) C) = Some (Some P) \<Longrightarrow>
                    (\<exists>X. map_option children (map_of (concepts s) P) = Some X \<and> C \<in> X)"
    unfolding back_referenced_iff [OF d] by blast
  have k: "has_key (concepts s) q \<longleftrightarrow> map_option children (map_of (concepts s) q) \<noteq> None" for q
    by (simp add: has_key_map_of)
  have "\<exists>X. map_option children (map_of (concepts ?s') P) = Some X \<and> C \<in> X"
    if h: "map_option parent (map_of (concepts ?s') C) = Some (Some P)" for C P
  proof (cases "C = nm")
    case True
    with h have "par = Some P" by (simp add: parent_add_concept)
    with p have "P \<noteq> []" "has_key (concepts s) P \<or> P = nm" by auto
    with True \<open>par = Some P\<close> show ?thesis
      by (auto simp: children_add_concept truthy_def k)
  next
    case False
    with h have o: "map_option parent (map_of (concepts s) C) = Some (Some P)"
      by (simp add: parent_add_concept)
    with nd [of C] have "P \<noteq> nm" by auto
    from i [OF o] obtain X where "map_option children (map_of (concepts s) P) = Some X" "C \<in> X"
      by blast
    with \<open>P \<noteq> nm\<close> show ?thesis
      by (auto simp: children_add_concept)
  qed
  then show ?thesis
    unfolding back_referenced_iff [OF d'] by blast
qed

lemma no_dependants_of_new:
  assumes "distinct (map fst (concepts s))" and "back_referenced (concepts s)"
    and "\<not> has_key (concepts s) nm"
  shows "map_option parent (map_of (concepts s) C) \<noteq> Some (Some nm)"
proof
  assume "map_option parent (map_of (concepts s) C) = Some (Some nm)"
  with assms(2) obtain X where "map_option children (map_of (concepts s) nm) = Some X"
    unfolding back_referenced_iff [OF assms(1)] by blast
  with assms(3) show False by (simp add: has_key_map_of)
qed

lemma seed_step:
  assumes i: "distinct (map fst (concepts s)) \<and> back_referenced (concepts s) \<and>
              parents_within A (concepts s)"
    and n: "nm \<notin> A \<or> \<not> has_key (concepts s) nm"
    and p: "case par of None \<Rightarrow> True | Some p \<Rightarrow> p \<noteq> [] \<and> p \<in> A \<and> has_key (concepts s) p"
  shows "distinct (map fst (concepts (add_concept clk s nm cat attrs par))) \<and>
         back_referenced (concepts (add_concept clk s nm cat attrs par)) \<and>
         parents_within A (concepts (add_concept clk s nm cat attrs par))"
proof -
  let ?s' = "add_concept clk s nm cat attrs par"
  from i have d: "distinct (map fst (concepts s))" and b: "back_referenced (concepts s)"
    and pw: "parents_within A (concepts s)"
    by blast+
  from pw have w: "\<And>C P. map_option parent (map_of (concepts s) C) = Some (Some P) \<Longrightarrow> P \<in> A"
    unfolding parents_within_iff [OF d] by blast
  have d': "distinct (map fst (concepts ?s'))"
    by (rule distinct_keys_add_concept [OF d])
  have nd: "map_option parent (map_of (concepts s) C) \<noteq> Some (Some nm)" for C
  proof (cases "nm \<in> A")
    case True
    with n have "\<not> has_key (concepts s) nm" by simp
    from no_dependants_of_new [OF d b this] show ?thesis .
  next
    case False
    with w [of C nm] show ?thesis by blast
  qed
  from p have p': "par = None \<or> (\<exists>p. par = Some p \<and> p \<noteq> [] \<and> (has_key (concepts s) p \<or> p = nm))"
    by (cases par) auto
  have b': "back_referenced (concepts ?s')"
    by (rule back_referenced_add_concept [OF d b nd p'])
  have "P \<in> A" if "map_option parent (map_of (concepts ?s') C) = Some (Some P)" for C P
    using that p w [of C P] by (cases "C = nm") (auto simp: parent_add_concept)
  then have "parents_within A (concepts ?s')"
    unfolding parents_within_iff [OF d'] by blast
  with d' b' show ?thesis by blast
qed

lemma has_key_new_store: "\<not> has_key (concepts new_store) k"
  by (simp add: new_store_def has_key_def)

lemma new_store_back_referenced:
  "distinct (map fst (concepts new_store)) \<and> back_referenced (concepts new_store) \<and>
   parents_within A (concepts new_store)"
  by (simp add: new_store_def back_referenced_def parents_within_def)

lemma seeded_invariant:
  "distinct (map fst (concepts (FashionOntology_init clk))) \<and>
   back_referenced (concepts (FashionOntology_init clk)) \<and>
   parents_within {''Fashion'', ''Apparel'', ''Material'', ''Pattern'', ''Style'', ''Fit'',
                   ''Length'', ''Occasion'', ''Feature'', ''Construction''}
     (concepts (FashionOntology_init clk))"
  unfolding FashionOntology_init_def initialize_base_structure_def
    add_attribute_categories_def Let_def fold_simps split_conv
  by (intro seed_step new_store_back_referenced)
     (simp_all add: has_key_add_concept has_key_new_store)

text \<open>
  C2, amended: for every concept with a parent, the parent exists in the store and lists
  the concept among its children. This holds of the freshly seeded ontology, and a call
  of \<^verbatim>\<open>add_concept\<close> preserves it when the name is new to the store and the parent is
  \<^verbatim>\<open>None\<close>, or is a non-empty name that is already a known concept or is the new name
  itself. The keys of the concept dict stay distinct.
\<close>

theorem back_reference_kept:
  assumes "distinct (map fst (concepts s))"
    and "back_referenced (concepts s)"
    and "\<not> has_key (concepts s) nm"
    and "par = None \<or> (\<exists>p. par = Some p \<and> p \<noteq> [] \<and> (has_key (concepts s) p \<or> p = nm))"
  shows "back_referenced (concepts (add_concept clk s nm cat attrs par)) \<and>
         distinct (map fst (concepts (add_concept clk s nm cat attrs par))) \<and>
         back_referenced (concepts (FashionOntology_init clk)) \<and>
         distinct (map fst (concepts (FashionOntology_init clk)))"
  using back_referenced_add_concept [OF assms(1,2) no_dependants_of_new [OF assms(1,2,3)] assms(4)]
    distinct_keys_add_concept [OF assms(1)] seeded_invariant [of clk]
  by blast

theorem back_reference_kept_witness:
  "distinct (map fst (concepts (FashionOntology_init tick_clock))) \<and>
   back_referenced (concepts (FashionOntology_init tick_clock)) \<and>
   \<not> has_key (concepts (FashionOntology_init tick_clock)) ''Velvet'' \<and>
   (Some ''Material'' = None \<or>
    (\<exists>p. Some ''Material'' = Some p \<and> p \<noteq> [] \<and>
         (has_key (concepts (FashionOntology_init tick_clock)) p \<or> p = ''Velvet''))) \<and>
   back_referenced
     (concepts (add_concept tick_clock (FashionOntology_init tick_clock) ''Velvet'' ''attribute''
                  None (Some ''Material'')))"
proof -
  let ?s = "FashionOntology_init tick_clock"
  from seeded_invariant [of tick_clock]
  have d: "distinct (map fst (concepts ?s))" and c: "back_referenced (concepts ?s)"
    by blast+
  have n: "\<not> has_key (concepts ?s) ''Velvet''"
    by (rule seeded_lacks_Velvet)
  have a: "has_key (concepts ?s) ''Material''"
    by (simp add: seed_defs has_key_add_concept)
  then have p: "Some ''Material'' = None \<or>
    (\<exists>p. Some ''Material'' = Some p \<and> p \<noteq> [] \<and> (has_key (concepts ?s) p \<or> p = ''Velvet''))"
    by simp
  from back_reference_kept [OF d c n p, of tick_clock "''attribute''" None]
  have "back_referenced
     (concepts (add_concept tick_clock ?s ''Velvet'' ''attribute'' None (Some ''Material'')))"
    by (rule conjunct1)
  with d c n p show ?thesis by blast
qed

section \<open>What the level search computes\<close>

text \<open>
  \<open>level_search\<close> returns the number of the first level, among the first \<open>fuel\<close> levels,
  that holds the target, and \<open>None\<close> when none of them does.
\<close>

lemma level_search_Some:
  "level_search g tgt level k fuel = Some d \<Longrightarrow>
   \<exists>i<fuel. d = k + i \<and> tgt \<in> set ((next_level g ^^ i) level) \<and>
     (\<forall>j<i. tgt \<notin> set ((next_level g ^^ j) level))"
proof (induction fuel arbitrary: level k)
  case 0
  then show ?case by simp
next
  case (Suc fuel)
  show ?case
  proof (cases "tgt \<in> set level")
    case True
    with Suc.prems have "d = k" by simp
    with True show ?thesis by (intro exI [of _ 0]) simp
  next
    case False
    with Suc.prems have "level_search g tgt (next_level g level) (Suc k) fuel = Some d"
      by simp
    from Suc.IH [OF this] obtain i where i: "i < fuel" "d = Suc k + i"
      "tgt \<in> set ((next_level g ^^ i) (next_level g level))"
      "\<forall>j<i. tgt \<notin> set ((next_level g ^^ j) (next_level g level))"
      by blast
    have "\<forall>j<Suc i. tgt \<notin> set ((next_level g ^^ j) level)"
    proof (intro allI impI)
      fix j assume "j < Suc i"
      then show "tgt \<notin> set ((next_level g ^^ j) level)"
        using False i(4) by (cases j) (simp_all add: funpow_swap1)
    qed
    with i(1,2,3) show ?thesis
      by (intro exI [of _ "Suc i"]) (simp add: funpow_swap1)
  qed
qed

lemma level_search_None:
  "level_search g tgt level k fuel = None \<Longrightarrow>
   \<forall>i<fuel. tgt \<notin> set ((next_level g ^^ i) level)"
proof (induction fuel arbitrary: level k)
  case 0
  then show ?case by simp
next
  case (Suc fuel)
  from Suc.prems have n: "tgt \<notin> set level"
    and r: "level_search g tgt (next_level g level) (Suc k) fuel = None"
    by (simp_all split: if_splits)
  show ?case
  proof (intro allI impI)
    fix i assume "i < Suc fuel"
    then show "tgt \<notin> set ((next_level g ^^ i) level)"
      using n Suc.IH [OF r] by (cases i) (simp_all add: funpow_swap1)
  qed
qed

text \<open>In the scenario store the ancestry of \<^verbatim>\<open>Dresses\<close> runs from the root down, each label once.\<close>

lemma scenario_ancestry_Dresses:
  "get_ancestry (scenario_store clk) ''Dresses'' = Some [''Fashion'', ''Apparel'', ''Dresses'']"
  by (simp add: get_ancestry_def scenario_concepts truthy_def
        ancestry_walk.simps [of _ "''Dresses''"] ancestry_walk.simps [of _ "''Apparel''"]
        ancestry_walk.simps [of _ "''Fashion''"])

end
